theory Spec2Isabelle
  imports Main "HOL-Library.Word" "HOL-Library.Sublist" "HOL-Library.Multiset"
begin

section \<open>The Link Rewriter (fixlinks.c)\<close>

subsection \<open>The operating-system interface\<close>

text \<open>
  The program talks to the file system through \<^verbatim>\<open>opendir\<close>, \<^verbatim>\<open>readdir\<close>,
  \<^verbatim>\<open>readlink\<close>, \<^verbatim>\<open>unlink\<close>, \<^verbatim>\<open>symlink\<close> and \<^verbatim>\<open>getwd\<close>. A file name and a link
  target are C strings: the bytes before the terminating NUL, as a \<open>string\<close>.
\<close>

datatype errno = EPERM | ENOENT | EIO | EACCES | EEXIST | EINVAL | ENAMETOOLONG | EROFS

datatype node = Regular | Directory | Symlink string

type_synonym dir = "string \<rightharpoonup> node"

text \<open>
  What one invocation finds around it. \<open>files\<close> is the working directory, from entry
  name to what the entry is. \<open>opendir\<close> is the result of \<^verbatim>\<open>opendir(".")\<close>: \<open>None\<close> for a
  null stream, otherwise the names that the successive \<^verbatim>\<open>readdir\<close> calls return, in
  order. The three \<open>_fault\<close> fields let a system call on a given entry fail with a
  given error (permissions, I/O errors, a target too long for the file system, ...).
  \<open>getwd\<close> is what \<^verbatim>\<open>getwd(NULL)\<close> returns (\<open>None\<close> for a null pointer), \<open>progname\<close>
  what \<^verbatim>\<open>err\<close> and \<^verbatim>\<open>errx\<close> print first, and \<open>garbage\<close> the indeterminate bytes the
  array \<^verbatim>\<open>target\<close> holds before anything is stored in it.
\<close>

record world =
  files :: dir
  opendir :: "string list option"
  readlink_fault :: "string \<Rightarrow> errno option"
  unlink_fault :: "string \<Rightarrow> errno option"
  symlink_fault :: "string \<Rightarrow> string \<Rightarrow> errno option"
  getwd :: "string option"
  progname :: string
  garbage :: "nat \<Rightarrow> char"

definition NUL :: char where
  "NUL = CHR 0x00"

definition newline :: char where
  "newline = CHR 0x0A"

definition backslash :: char where
  "backslash = CHR 0x5C"

text \<open>\<^verbatim>\<open>EX_USAGE\<close> and \<^verbatim>\<open>EX_OSERR\<close> of \<^verbatim>\<open><sysexits.h>\<close>.\<close>

definition EX_USAGE :: int where
  "EX_USAGE = 64"

definition EX_OSERR :: int where
  "EX_OSERR = 71"

fun strerror :: "errno \<Rightarrow> string" where
  "strerror EPERM = ''Operation not permitted''"
| "strerror ENOENT = ''No such file or directory''"
| "strerror EIO = ''Input/output error''"
| "strerror EACCES = ''Permission denied''"
| "strerror EEXIST = ''File exists''"
| "strerror EINVAL = ''Invalid argument''"
| "strerror ENAMETOOLONG = ''File name too long''"
| "strerror EROFS = ''Read-only file system''"

text \<open>
  \<^verbatim>\<open>readlink(path, buf, bufsiz)\<close> stores at most \<open>bufsiz\<close> bytes of the link's target at
  the start of \<open>buf\<close>, appends no NUL, and returns the number of bytes stored; a longer
  target is cut silently. On an entry that is not a symbolic link it fails with
  \<open>EINVAL\<close>. The result is the error, or the count and the buffer after the call.
\<close>

definition readlink :: "world \<Rightarrow> dir \<Rightarrow> string \<Rightarrow> string \<Rightarrow> nat \<Rightarrow> errno + nat \<times> string" where
  "readlink w d path buf bufsiz =
     (case readlink_fault w path of
        Some e \<Rightarrow> Inl e
      | None \<Rightarrow>
          (case d path of
             None \<Rightarrow> Inl ENOENT
           | Some (Symlink t) \<Rightarrow>
               (let n = min (length t) bufsiz in Inr (n, take n t @ drop n buf))
           | Some _ \<Rightarrow> Inl EINVAL))"

definition unlink :: "world \<Rightarrow> dir \<Rightarrow> string \<Rightarrow> errno + dir" where
  "unlink w d path =
     (case unlink_fault w path of
        Some e \<Rightarrow> Inl e
      | None \<Rightarrow>
          (case d path of
             None \<Rightarrow> Inl ENOENT
           | Some Directory \<Rightarrow> Inl EPERM
           | Some _ \<Rightarrow> Inr (d(path := None))))"

definition symlink :: "world \<Rightarrow> dir \<Rightarrow> string \<Rightarrow> string \<Rightarrow> errno + dir" where
  "symlink w d name1 name2 =
     (case symlink_fault w name1 name2 of
        Some e \<Rightarrow> Inl e
      | None \<Rightarrow>
          (case d name2 of
             Some _ \<Rightarrow> Inl EEXIST
           | None \<Rightarrow> Inr (d(name2 \<mapsto> Symlink name1))))"

text \<open>What \<^verbatim>\<open>%s\<close> prints of a character array: the bytes before the first NUL.\<close>

definition cstring :: "string \<Rightarrow> string" where
  "cstring buf = takeWhile (\<lambda>c. c \<noteq> NUL) buf"

text \<open>\<^verbatim>\<open>%s\<close> of a pointer that may be null, as the C libraries print it.\<close>

definition str_or_null :: "string option \<Rightarrow> string" where
  "str_or_null p = (case p of None \<Rightarrow> ''(null)'' | Some s \<Rightarrow> s)"

text \<open>\<^verbatim>\<open>%d\<close> of an \<^verbatim>\<open>int\<close>.\<close>

definition digit :: "nat \<Rightarrow> char" where
  "digit n = ''0123456789'' ! n"

fun show_nat :: "nat \<Rightarrow> string" where
  "show_nat n = (if n < 10 then [digit n] else show_nat (n div 10) @ [digit (n mod 10)])"

declare show_nat.simps [simp del]

definition show_int :: "int \<Rightarrow> string" where
  "show_int i = (if i < 0 then CHR ''-'' # show_nat (nat (- i)) else show_nat (nat i))"

text \<open>
  The line \<^verbatim>\<open>err(eval, fmt, ...)\<close> writes to standard error: the program name, the
  formatted message, and the text of \<^verbatim>\<open>errno\<close>. \<^verbatim>\<open>errx\<close> leaves the last part out.
\<close>

definition err_text :: "world \<Rightarrow> string \<Rightarrow> errno \<Rightarrow> string" where
  "err_text w msg e = progname w @ '': '' @ msg @ '': '' @ strerror e @ [newline]"

definition errx_text :: "world \<Rightarrow> string \<Rightarrow> string" where
  "errx_text w msg = progname w @ '': '' @ msg @ [newline]"

subsection \<open>The program\<close>

text \<open>
  The variables of \<^verbatim>\<open>main\<close> that the loop changes, with the directory. Both counters
  are C \<^verbatim>\<open>int\<close>s, 32 bits wide, read as signed by \<open>sint\<close>. The array \<^verbatim>\<open>target\<close> is
  declared in the loop body; the model keeps its bytes from one iteration to the next,
  as a compiler that gives it one stack slot does.
\<close>

record state =
  links :: "32 word"
  fixed :: "32 word"
  target :: string
  fs :: dir

definition TARGET_SIZE :: nat where
  "TARGET_SIZE = 1024"

text \<open>How a run ends: the process exits, or \<^verbatim>\<open>readdir\<close> is called on a null stream,
  whose behaviour is undefined.\<close>

datatype outcome =
  Exit (status: int) (stdout: string) (stderr: string)
| ReaddirNull

text \<open>
  One iteration of the \<^verbatim>\<open>while\<close> loop, for the entry \<open>d_name\<close>. \<open>Inr\<close> is the state
  with which the loop goes on; \<open>Inl\<close> is a call of \<^verbatim>\<open>err\<close>: the line it prints and the
  state in which the process exits. \<^verbatim>\<open>target[0]\<close> is tested before \<^verbatim>\<open>target[index]\<close> is
  set to NUL, as in the source. \<^verbatim>\<open>asprintf\<close> is taken to find the memory it needs.
\<close>

definition body :: "world \<Rightarrow> string \<Rightarrow> state \<Rightarrow> string \<times> state + state" where
  "body w d_name s =
     (case readlink w (fs s) d_name (target s) (TARGET_SIZE - 1) of
        Inl e \<Rightarrow>
          if e = EINVAL then Inr s
          else Inl (err_text w (''error in readlink('' @ [CHR 0x27] @ d_name @ [CHR 0x27] @ '')'') e, s)
      | Inr (index, buf) \<Rightarrow>
          (let s1 = s\<lparr>target := buf, links := links s + 1\<rparr> in
           if buf ! 0 = CHR ''/'' then
             (let s2 = s1\<lparr>target := buf[index := NUL]\<rparr>;
                  newName = ''../..'' @ cstring (target s2)
              in case unlink w (fs s2) d_name of
                   Inl e \<Rightarrow> Inl (err_text w ''Failed to remove old link'' e, s2)
                 | Inr d1 \<Rightarrow>
                     (case symlink w d1 newName d_name of
                        Inl e \<Rightarrow> Inl (err_text w ''Failed to create link'' e, s2\<lparr>fs := d1\<rparr>)
                      | Inr d2 \<Rightarrow> Inr (s2\<lparr>fs := d2, fixed := fixed s2 + 1\<rparr>)))
           else Inr s1))"

text \<open>The loop over the names that \<^verbatim>\<open>readdir\<close> returns; it stops at the first \<^verbatim>\<open>err\<close>.\<close>

fun scan :: "world \<Rightarrow> string list \<Rightarrow> state \<Rightarrow> string \<times> state + state" where
  "scan w [] s = Inr s"
| "scan w (d_name # rest) s =
     (case body w d_name s of
        Inl a \<Rightarrow> Inl a
      | Inr s' \<Rightarrow> scan w rest s')"

definition init :: "world \<Rightarrow> state" where
  "init w = \<lparr>links = 0, fixed = 0, target = map (garbage w) [0..<TARGET_SIZE], fs = files w\<rparr>"

text \<open>The summary that \<^verbatim>\<open>printf\<close> writes. The format string of the source ends in
  \<^verbatim>\<open>\\n\<close>: a backslash and the letter n.\<close>

definition report :: "32 word \<Rightarrow> 32 word \<Rightarrow> string" where
  "report f l =
     ''fixed '' @ show_int (sint f) @ ''/'' @ show_int (sint l) @ '' symbolic links'' @ [backslash, CHR ''n'']"

text \<open>\<^verbatim>\<open>main\<close>: how the process ends, and the directory it leaves.\<close>

definition main :: "world \<Rightarrow> outcome \<times> dir" where
  "main w =
     (case opendir w of
        None \<Rightarrow> (ReaddirNull, files w)
      | Some names \<Rightarrow>
          (case scan w names (init w) of
             Inl (line, s) \<Rightarrow> (Exit EX_OSERR [] line, fs s)
           | Inr s \<Rightarrow>
               if links s = 0
               then (Exit EX_USAGE [] (errx_text w (''no symbolic links in '' @ str_or_null (getwd w))), fs s)
               else (Exit 0 (report (fixed s) (links s)) [], fs s)))"

text \<open>The state in which the loop stops, whether it ran to the end or called \<^verbatim>\<open>err\<close>.\<close>

definition final :: "string \<times> state + state \<Rightarrow> state" where
  "final r = (case r of Inl (_, s) \<Rightarrow> s | Inr s \<Rightarrow> s)"

subsection \<open>Vocabulary of the specification\<close>

text \<open>A target is absolute when it begins with the path-root marker; \<open>relative\<close> is any
  other target that has a first byte.\<close>

definition absolute :: "string \<Rightarrow> bool" where
  "absolute t = (case t of [] \<Rightarrow> False | c # _ \<Rightarrow> c = CHR ''/'')"

definition relative :: "string \<Rightarrow> bool" where
  "relative t = (case t of [] \<Rightarrow> False | c # _ \<Rightarrow> c \<noteq> CHR ''/'')"

text \<open>\<^verbatim>\<open>readlink\<close> succeeds on the entry \<open>d\<close> in the state \<open>s\<close>: the entry is read as a
  symbolic link.\<close>

definition is_link :: "world \<Rightarrow> state \<Rightarrow> string \<Rightarrow> bool" where
  "is_link w s d =
     (case readlink w (fs s) d (target s) (TARGET_SIZE - 1) of Inl _ \<Rightarrow> False | Inr _ \<Rightarrow> True)"

text \<open>The iteration on \<open>d\<close> goes on to the next entry with \<open>d\<close> replaced by another node:
  a rewrite that succeeded.\<close>

definition replaced :: "world \<Rightarrow> state \<Rightarrow> string \<Rightarrow> bool" where
  "replaced w s d = (case body w d s of Inl _ \<Rightarrow> False | Inr s' \<Rightarrow> fs s' d \<noteq> fs s d)"

text \<open>The three documented ways for a run to end: the summary on standard output with
  status 0, or a message on standard error with the usage status or the operating-system
  status.\<close>

definition contract :: "outcome \<Rightarrow> bool" where
  "contract r =
     (case r of
        Exit st out line \<Rightarrow>
          (st = 0 \<and> line = []) \<or> (st = EX_USAGE \<and> out = []) \<or> (st = EX_OSERR \<and> out = [])
      | ReaddirNull \<Rightarrow> False)"

text \<open>The iteration on the entry \<open>n\<close> of the directory \<open>d\<close> has nothing to rewrite and
  nothing to fail on: \<^verbatim>\<open>readlink\<close> answers \<open>EINVAL\<close>, or reads a relative target.\<close>

definition settled :: "world \<Rightarrow> dir \<Rightarrow> string \<Rightarrow> bool" where
  "settled w d n =
     (case readlink_fault w n of
        Some e \<Rightarrow> e = EINVAL
      | None \<Rightarrow>
          (case d n of
             None \<Rightarrow> False
           | Some (Symlink t) \<Rightarrow> relative t
           | Some _ \<Rightarrow> True))"

subsection \<open>Example directories\<close>

text \<open>The end-to-end scenario of the specification: an absolute link, a relative link
  and a regular file, listed after the two entries every directory has.\<close>

definition sample :: world where
  "sample =
     \<lparr>files = [''.'' \<mapsto> Directory, ''..'' \<mapsto> Directory, ''a'' \<mapsto> Symlink ''/opt/x/y'',
               ''b'' \<mapsto> Symlink ''../c'', ''c'' \<mapsto> Regular],
      opendir = Some [''.'', ''..'', ''a'', ''b'', ''c''],
      readlink_fault = (\<lambda>_. None),
      unlink_fault = (\<lambda>_. None),
      symlink_fault = (\<lambda>_ _. None),
      getwd = Some ''/sysroot/usr/lib'',
      progname = ''fixlinks'',
      garbage = (\<lambda>_. NUL)\<rparr>"

text \<open>A link whose target is 1024 bytes long: a slash and 1023 letters.\<close>

definition sample_long :: world where
  "sample_long =
     sample\<lparr>files := [''.'' \<mapsto> Directory, ''..'' \<mapsto> Directory,
                       ''a'' \<mapsto> Symlink (CHR ''/'' # replicate 1023 (CHR ''a''))],
            opendir := Some [''.'', ''..'', ''a'']\<rparr>"

text \<open>The scenario with \<^verbatim>\<open>readlink\<close> refused on the entry \<^verbatim>\<open>b\<close>.\<close>

definition sample_unreadable :: world where
  "sample_unreadable =
     sample\<lparr>readlink_fault := (\<lambda>n. if n = ''b'' then Some EACCES else None)\<rparr>"

text \<open>A directory whose only link cannot be removed.\<close>

definition sample_locked :: world where
  "sample_locked =
     sample\<lparr>files := [''.'' \<mapsto> Directory, ''..'' \<mapsto> Directory,
                       ''libc.so'' \<mapsto> Symlink ''/usr/lib/libc.so.7''],
            opendir := Some [''.'', ''..'', ''libc.so''],
            unlink_fault := (\<lambda>n. if n = ''libc.so'' then Some EACCES else None)\<rparr>"

text \<open>A directory without links.\<close>

definition sample_nolinks :: world where
  "sample_nolinks =
     sample\<lparr>files := [''.'' \<mapsto> Directory, ''..'' \<mapsto> Directory, ''c'' \<mapsto> Regular],
            opendir := Some [''.'', ''..'', ''c'']\<rparr>"

text \<open>The scenario with a working directory that cannot be opened.\<close>

definition sample_closed :: world where
  "sample_closed = sample\<lparr>opendir := None\<rparr>"

text \<open>The directory without links, with a C library whose \<^verbatim>\<open>getwd\<close> returns a null
  pointer when it is given one.\<close>

definition sample_null_getwd :: world where
  "sample_null_getwd = sample_nolinks\<lparr>getwd := None\<rparr>"

text \<open>The link with the long target, followed by an entry on which \<^verbatim>\<open>readlink\<close> is
  refused.\<close>

definition sample_long_abort :: world where
  "sample_long_abort =
     sample\<lparr>files := [''.'' \<mapsto> Directory, ''..'' \<mapsto> Directory,
                       ''a'' \<mapsto> Symlink (CHR ''/'' # replicate 1023 (CHR ''a'')),
                       ''b'' \<mapsto> Symlink ''../c''],
            opendir := Some [''.'', ''..'', ''a'', ''b''],
            readlink_fault := (\<lambda>n. if n = ''b'' then Some EACCES else None)\<rparr>"

section \<open>The disassembly front end (cheridis.c)\<close>

text \<open>
  The program opens a pipe to the disassembler with \<^verbatim>\<open>popen\<close> and writes to it. An
  argument is a C string: the bytes before its NUL. \<open>dis\<close> is what has been written to
  the pipe so far.

  The inner loop: four \<^verbatim>\<open>fprintf(dis, "0x%.2s ", &inst[byte])\<close>, for \<open>byte\<close> from 0 in
  steps of 2 while below 8. \<^verbatim>\<open>%.2s\<close> prints at most two bytes of the string.
\<close>

function byte_loop :: "string \<Rightarrow> nat \<Rightarrow> string \<Rightarrow> string" where
  "byte_loop inst byte dis =
     (if byte < 8 then byte_loop inst (byte + 2) (dis @ ''0x'' @ take 2 (drop byte inst) @ '' '')
      else dis)"
  by pat_completeness auto
termination
  by (relation "measure (\<lambda>(inst, byte, dis). 8 - byte)") auto

declare byte_loop.simps [simp del]

text \<open>The body of the outer loop for one argument; \<^verbatim>\<open>continue\<close> leaves the pipe as it is.\<close>

definition one_arg :: "string \<Rightarrow> string \<Rightarrow> string" where
  "one_arg inst dis =
     (if length inst = 10 then
        (if inst ! 0 \<noteq> CHR ''0'' \<or> inst ! 1 \<noteq> CHR ''x'' then dis
         else byte_loop (drop 2 inst) 0 dis)
      else if length inst \<noteq> 8 then dis
      else byte_loop inst 0 dis)"

text \<open>The outer loop, \<^verbatim>\<open>for (i=1 ; i<argc ; i++)\<close>, with \<open>argc = length argv\<close>.\<close>

function arg_loop :: "string list \<Rightarrow> nat \<Rightarrow> string \<Rightarrow> string" where
  "arg_loop argv i dis =
     (if i < length argv then arg_loop argv (i + 1) (one_arg (argv ! i) dis) else dis)"
  by pat_completeness auto
termination
  by (relation "measure (\<lambda>(argv, i, dis). length argv - i)") auto

declare arg_loop.simps [simp del]

text \<open>\<^verbatim>\<open>main\<close> of cheridis.c: what the disassembler is sent. The result of \<^verbatim>\<open>popen\<close> is
  not tested; with a null stream (\<open>popen_ok\<close> false) the calls that use it are undefined
  and the model gives no result.\<close>

definition cheridis_main :: "bool \<Rightarrow> string list \<Rightarrow> string option" where
  "cheridis_main popen_ok argv = (if popen_ok then Some (arg_loop argv 1 []) else None)"

subsection \<open>The contract of the specification\<close>

text \<open>The four byte pairs of eight characters, in order, and what the specification
  has streamed for one argument.\<close>

definition byte_pairs :: "string \<Rightarrow> string list" where
  "byte_pairs h = [take 2 h, take 2 (drop 2 h), take 2 (drop 4 h), take 2 (drop 6 h)]"

definition spec_tokens :: "string \<Rightarrow> string" where
  "spec_tokens a =
     (if length a = 8 then concat (map (\<lambda>p. ''0x'' @ p @ '' '') (byte_pairs a))
      else if length a = 10 \<and> take 2 a = ''0x''
      then concat (map (\<lambda>p. ''0x'' @ p @ '' '') (byte_pairs (drop 2 a)))
      else [])"

section \<open>Properties of the Link Rewriter\<close>

subsection \<open>One iteration\<close>

text \<open>After \<^verbatim>\<open>target[index] = 0\<close>, \<^verbatim>\<open>%s\<close> prints what \<^verbatim>\<open>readlink\<close> stored, when the
  target holds no NUL.\<close>

lemma cstring_readlink:
  assumes "length buf = TARGET_SIZE" and "NUL \<notin> set t" and "n = min (length t) (TARGET_SIZE - 1)"
  shows "cstring ((take n t @ drop n buf)[n := NUL]) = take n t"
proof -
  have n: "n < length buf" "length (take n t) = n"
    using assms by (auto simp: TARGET_SIZE_def)
  then obtain c cs where d: "drop n buf = c # cs"
    by (cases "drop n buf") auto
  have "(take n t @ drop n buf)[n := NUL] = take n t @ NUL # cs"
    using n d by (simp add: list_update_append)
  moreover have "\<forall>x\<in>set (take n t). x \<noteq> NUL"
    using assms(2) by (auto dest: in_set_takeD)
  ultimately show ?thesis
    by (simp add: cstring_def)
qed

lemma readlink_Inr:
  "readlink w d p buf k = Inr (n, buf') \<longleftrightarrow>
     readlink_fault w p = None \<and>
     (\<exists>t. d p = Some (Symlink t) \<and> n = min (length t) k \<and> buf' = take n t @ drop n buf)"
  by (auto simp: readlink_def Let_def split: option.splits node.splits)

lemma length_target_body:
  "length (target s) = TARGET_SIZE \<Longrightarrow> length (target (final (body w d s))) = TARGET_SIZE"
  by (auto simp: body_def final_def Let_def readlink_Inr TARGET_SIZE_def
      split: sum.splits prod.splits)

text \<open>An iteration touches no entry but its own.\<close>

lemma fs_body_other:
  "n \<noteq> d \<Longrightarrow> fs (final (body w d s)) n = fs s n"
  by (auto simp: body_def final_def Let_def unlink_def symlink_def
      split: sum.splits prod.splits option.splits node.splits if_splits)

text \<open>The iteration on a link with a relative target.\<close>

lemma body_relative:
  assumes "fs s d = Some (Symlink t)" and "relative t" and "readlink_fault w d = None"
  shows "body w d s =
    Inr (s\<lparr>target := take (min (length t) (TARGET_SIZE - 1)) t
                       @ drop (min (length t) (TARGET_SIZE - 1)) (target s),
          links := links s + 1\<rparr>)"
proof -
  obtain c cs where t: "t = c # cs" "c \<noteq> CHR ''/''"
    using assms(2) by (auto simp: relative_def split: list.splits)
  have "min (length t) (TARGET_SIZE - 1) = Suc (min (length cs) (TARGET_SIZE - 2))"
    using t by (simp add: TARGET_SIZE_def)
  then show ?thesis
    using assms(1,3) t by (simp add: body_def readlink_def Let_def)
qed

text \<open>The iteration on a link with an absolute target.\<close>

lemma body_absolute:
  assumes "fs s d = Some (Symlink t)" and "absolute t" and "readlink_fault w d = None"
    and "length (target s) = TARGET_SIZE" and "NUL \<notin> set t"
    and "n = min (length t) (TARGET_SIZE - 1)"
    and "s2 = s\<lparr>target := (take n t @ drop n (target s))[n := NUL], links := links s + 1\<rparr>"
    and "new = ''../..'' @ take n t"
  shows "body w d s =
    (case unlink_fault w d of
       Some e \<Rightarrow> Inl (err_text w ''Failed to remove old link'' e, s2)
     | None \<Rightarrow>
        (case symlink_fault w new d of
           Some e \<Rightarrow> Inl (err_text w ''Failed to create link'' e, s2\<lparr>fs := (fs s)(d := None)\<rparr>)
         | None \<Rightarrow> Inr (s2\<lparr>fs := (fs s)(d \<mapsto> Symlink new), fixed := fixed s + 1\<rparr>)))"
proof -
  obtain cs where t: "t = CHR ''/'' # cs"
    using assms(2) by (auto simp: absolute_def split: list.splits)
  have n: "n = Suc (min (length cs) (TARGET_SIZE - 2))"
    using t assms(6) by (simp add: TARGET_SIZE_def)
  have r: "readlink w (fs s) d (target s) (TARGET_SIZE - 1) = Inr (n, take n t @ drop n (target s))"
    using assms(1,3,6) by (simp add: readlink_def Let_def)
  have z: "(take n t @ drop n (target s)) ! 0 = CHR ''/''"
    using t n by simp
  have c: "cstring ((take n t @ drop n (target s))[n := NUL]) = take n t"
    using assms(4,5,6) by (rule cstring_readlink)
  show ?thesis
    unfolding body_def r
    using z c assms(1,7,8)
    by (simp add: Let_def unlink_def symlink_def split: option.splits)
qed

subsection \<open>The loop\<close>

lemma scan_append:
  "scan w (xs @ ys) s = (case scan w xs s of Inl a \<Rightarrow> Inl a | Inr s' \<Rightarrow> scan w ys s')"
  by (induction xs arbitrary: s) (auto split: sum.splits)

lemma length_target_scan:
  "length (target s) = TARGET_SIZE \<Longrightarrow> length (target (final (scan w names s))) = TARGET_SIZE"
proof (induction names arbitrary: s)
  case Nil
  then show ?case by (simp add: final_def)
next
  case (Cons d rest)
  show ?case
  proof (cases "body w d s")
    case (Inl a)
    then show ?thesis
      using length_target_body [OF Cons.prems, of w d] by (simp add: final_def)
  next
    case (Inr s')
    then have "length (target s') = TARGET_SIZE"
      using length_target_body [OF Cons.prems, of w d] by (simp add: final_def)
    then show ?thesis
      using Cons.IH Inr by simp
  qed
qed

text \<open>A link with a relative target stays as it is, whatever entry is being visited and
  however the iteration ends.\<close>

lemma body_keeps_relative:
  assumes "fs s n = Some (Symlink t)" and "relative t"
  shows "fs (final (body w d s)) n = Some (Symlink t)"
proof (cases "n = d")
  case False
  then show ?thesis using assms(1) by (simp add: fs_body_other)
next
  case True
  show ?thesis
  proof (cases "readlink_fault w d")
    case None
    then show ?thesis
      using body_relative [of s d t w] assms True by (simp add: final_def)
  next
    case (Some e)
    then show ?thesis
      using assms(1) by (simp add: body_def readlink_def final_def)
  qed
qed

lemma scan_keeps_relative:
  "fs s n = Some (Symlink t) \<Longrightarrow> relative t \<Longrightarrow> fs (final (scan w names s)) n = Some (Symlink t)"
proof (induction names arbitrary: s)
  case Nil
  then show ?case by (simp add: final_def)
next
  case (Cons d rest)
  have k: "fs (final (body w d s)) n = Some (Symlink t)"
    using Cons.prems by (rule body_keeps_relative)
  show ?case
  proof (cases "body w d s")
    case (Inl a)
    then show ?thesis using k by (simp add: final_def)
  next
    case (Inr s')
    then have "fs s' n = Some (Symlink t)" using k by (simp add: final_def)
    then show ?thesis using Cons.IH Cons.prems(2) Inr by simp
  qed
qed

lemma relative_rewritten: "relative (''../..'' @ t)"
  by (simp add: relative_def)

lemma body_rewrites:
  assumes "fs s d = Some (Symlink t)" and "absolute t" and "readlink_fault w d = None"
    and "length (target s) = TARGET_SIZE" and "NUL \<notin> set t" and "body w d s = Inr s'"
  shows "fs s' d = Some (Symlink (''../..'' @ take (TARGET_SIZE - 1) t))"
proof -
  have "take (min (length t) (TARGET_SIZE - 1)) t = take (TARGET_SIZE - 1) t"
    by (simp add: min_def)
  then show ?thesis
    using body_absolute [OF assms(1-5) refl refl refl] assms(6)
    by (auto split: option.splits)
qed

text \<open>A loop that runs to the end has rewritten every absolute link it was given.\<close>

lemma scan_rewrites:
  assumes "n \<in> set names" and "fs s n = Some (Symlink t)" and "absolute t"
    and "readlink_fault w n = None" and "length (target s) = TARGET_SIZE" and "NUL \<notin> set t"
    and "scan w names s = Inr s'"
  shows "fs s' n = Some (Symlink (''../..'' @ take (TARGET_SIZE - 1) t))"
  using assms
proof (induction names arbitrary: s)
  case Nil
  then show ?case by simp
next
  case (Cons d rest)
  from Cons.prems(7) obtain s1 where s1: "body w d s = Inr s1" "scan w rest s1 = Inr s'"
    by (auto split: sum.splits)
  have len: "length (target s1) = TARGET_SIZE"
    using length_target_body [OF Cons.prems(5), of w d] s1(1) by (simp add: final_def)
  show ?case
  proof (cases "n = d")
    case True
    then have "fs s1 n = Some (Symlink (''../..'' @ take (TARGET_SIZE - 1) t))"
      using body_rewrites [of s d t w s1] Cons.prems s1(1) by simp
    then have "fs (final (scan w rest s1)) n = Some (Symlink (''../..'' @ take (TARGET_SIZE - 1) t))"
      by (rule scan_keeps_relative) (rule relative_rewritten)
    then show ?thesis using s1(2) by (simp add: final_def)
  next
    case False
    then have "fs s1 n = Some (Symlink t)" "n \<in> set rest"
      using fs_body_other [of n d w s] s1(1) Cons.prems(1,2) by (simp_all add: final_def)
    then show ?thesis
      using Cons.IH [of s1] Cons.prems(3,4,6) len s1(2) by simp
  qed
qed

subsection \<open>The whole run\<close>

lemma init_simps:
  "links (init w) = 0" "fixed (init w) = 0" "fs (init w) = files w"
  "length (target (init w)) = TARGET_SIZE"
  by (simp_all add: init_def)

lemma main_Inr:
  "opendir w = Some names \<Longrightarrow> scan w names (init w) = Inr s \<Longrightarrow>
   main w =
     (if links s = 0
      then (Exit EX_USAGE [] (errx_text w (''no symbolic links in '' @ str_or_null (getwd w))), fs s)
      else (Exit 0 (report (fixed s) (links s)) [], fs s))"
  by (simp add: main_def)

lemma main_Inl:
  "opendir w = Some names \<Longrightarrow> scan w names (init w) = Inl (line, s) \<Longrightarrow>
   main w = (Exit EX_OSERR [] line, fs s)"
  by (simp add: main_def)

lemma snd_main:
  "snd (main w) =
     (case opendir w of None \<Rightarrow> files w | Some names \<Rightarrow> fs (final (scan w names (init w))))"
  by (simp add: main_def final_def split: option.splits sum.splits)

text \<open>With a \<^verbatim>\<open>getwd\<close> that returns the path of the working directory, the line of the
  usage error holds it.\<close>

lemma usage_error_with_path:
  assumes "opendir w = Some names" and "scan w names (init w) = Inr s" and "links s = 0"
    and "getwd w = Some path"
  shows "main w = (Exit EX_USAGE [] (errx_text w (''no symbolic links in '' @ path)), fs s)
       \<and> EX_USAGE \<noteq> EX_OSERR \<and> EX_USAGE \<noteq> 0
       \<and> sublist path (stderr (fst (main w)))"
proof -
  have m: "main w = (Exit EX_USAGE [] (errx_text w (''no symbolic links in '' @ path)), fs s)"
    using assms by (simp add: main_Inr str_or_null_def)
  have "sublist path ((progname w @ '': no symbolic links in '') @ path @ [newline])"
    by (rule sublist_appendI)
  then have "sublist path (stderr (fst (main w)))"
    by (simp add: m errx_text_def)
  then show ?thesis
    using m by (simp add: EX_USAGE_def EX_OSERR_def)
qed

subsection \<open>The counters\<close>

lemma body_links:
  "links (final (body w d s)) = (if is_link w s d then links s + 1 else links s)"
  by (auto simp: body_def final_def is_link_def Let_def split: sum.splits prod.splits)

lemma readlink_first_byte:
  assumes "readlink w d p buf k = Inr (n, buf')" and "d p = Some (Symlink (c # cs))" and "0 < k"
  shows "buf' ! 0 = c"
proof -
  have "n = min (Suc (length cs)) k" "buf' = take n (c # cs) @ drop n buf"
    using assms(1,2) by (auto simp: readlink_Inr)
  moreover obtain m where "min (Suc (length cs)) k = Suc m"
    using assms(3) by (cases k) auto
  ultimately show ?thesis by simp
qed

lemma body_fixed:
  "fixed (final (body w d s)) = (if replaced w s d then fixed s + 1 else fixed s)"
proof (cases "readlink w (fs s) d (target s) (TARGET_SIZE - 1)")
  case (Inl e)
  then show ?thesis
    by (simp add: body_def final_def replaced_def)
next
  case (Inr r)
  obtain index buf where r: "r = (index, buf)"
    by (cases r)
  from Inr r obtain t where t: "fs s d = Some (Symlink t)"
    by (auto simp: readlink_Inr)
  show ?thesis
  proof (cases "buf ! 0 = CHR ''/''")
    case False
    then show ?thesis
      using Inr r by (simp add: body_def final_def replaced_def Let_def)
  next
    case True
    have "t \<noteq> ''../..'' @ x" for x
    proof
      assume "t = ''../..'' @ x"
      then have "buf ! 0 = CHR ''.''"
        using readlink_first_byte [of w "fs s" d "target s" "TARGET_SIZE - 1" index buf "CHR ''.''"]
          Inr r t by (simp add: TARGET_SIZE_def)
      then show False using True by simp
    qed
    then show ?thesis
      using Inr r True t
      by (auto simp: body_def final_def replaced_def Let_def unlink_def symlink_def
          split: sum.splits option.splits node.splits)
  qed
qed

lemma replaced_is_link: "replaced w s d \<Longrightarrow> is_link w s d"
  by (auto simp: replaced_def is_link_def body_def split: sum.splits if_splits)

lemma sint_succ:
  fixes x :: "32 word"
  assumes "0 \<le> sint x" and "sint x < 2 ^ 31 - 1"
  shows "sint (x + 1) = sint x + 1"
proof -
  have "sint (x + 1) = signed_take_bit 31 (sint x + 1)"
    by (simp add: sint_word_add)
  also have "\<dots> = sint x + 1"
    using assms by (intro signed_take_bit_int_eq_self) simp_all
  finally show ?thesis .
qed

lemma body_counters:
  assumes "0 \<le> sint (fixed s)" and "sint (fixed s) \<le> sint (links s)"
    and "sint (links s) < 2 ^ 31 - 1" and "s' = final (body w d s)"
  shows "0 \<le> sint (fixed s') \<and> sint (fixed s') \<le> sint (links s')
       \<and> sint (links s') \<le> sint (links s) + 1"
proof (cases "is_link w s d")
  case False
  then have "\<not> replaced w s d"
    using replaced_is_link by blast
  then show ?thesis
    using False assms by (simp add: body_links body_fixed)
next
  case True
  have l: "sint (links s') = sint (links s) + 1"
    using True assms by (simp add: body_links sint_succ)
  show ?thesis
  proof (cases "replaced w s d")
    case False
    then show ?thesis
      using l assms by (simp add: body_fixed)
  next
    case True
    then have "sint (fixed s') = sint (fixed s) + 1"
      using assms by (simp add: body_fixed sint_succ)
    then show ?thesis
      using l assms by simp
  qed
qed

lemma scan_counters:
  assumes "0 \<le> sint (fixed s)" and "sint (fixed s) \<le> sint (links s)"
    and "sint (links s) + int (length names) < 2 ^ 31" and "s' = final (scan w names s)"
  shows "0 \<le> sint (fixed s') \<and> sint (fixed s') \<le> sint (links s')
       \<and> sint (links s') \<le> sint (links s) + int (length names)"
  using assms
proof (induction names arbitrary: s)
  case Nil
  then show ?case by (simp add: final_def)
next
  case (Cons d rest)
  have b: "0 \<le> sint (fixed (final (body w d s)))
         \<and> sint (fixed (final (body w d s))) \<le> sint (links (final (body w d s)))
         \<and> sint (links (final (body w d s))) \<le> sint (links s) + 1"
    using Cons.prems(1,2) _ refl by (rule body_counters) (use Cons.prems(3) in simp)
  show ?case
  proof (cases "body w d s")
    case (Inl a)
    then have "s' = final (body w d s)"
      using Cons.prems(4) by (simp add: final_def)
    then show ?thesis using b by simp
  next
    case (Inr s1)
    then have s1: "final (body w d s) = s1" "s' = final (scan w rest s1)"
      using Cons.prems(4) by (simp_all add: final_def)
    have "0 \<le> sint (fixed s') \<and> sint (fixed s') \<le> sint (links s')
        \<and> sint (links s') \<le> sint (links s1) + int (length rest)"
      using b s1 Cons.prems(3) by (intro Cons.IH) simp_all
    then show ?thesis using b s1(1) by simp
  qed
qed

subsection \<open>A second run\<close>

lemma is_link_iff:
  "is_link w s n \<longleftrightarrow> readlink_fault w n = None \<and> (\<exists>t. fs s n = Some (Symlink t))"
  by (auto simp: is_link_def readlink_def Let_def split: option.splits node.splits)

lemma settled_body:
  assumes "settled w (fs s) d"
  shows "\<exists>s'. body w d s = Inr s' \<and> fs s' = fs s \<and> fixed s' = fixed s
            \<and> links s' = (if is_link w s d then links s + 1 else links s)"
proof (cases "is_link w s d")
  case True
  then obtain t where t: "readlink_fault w d = None" "fs s d = Some (Symlink t)"
    by (auto simp: is_link_iff)
  then have "relative t"
    using assms by (simp add: settled_def)
  then show ?thesis
    using body_relative [of s d t w] t True by simp
next
  case False
  then have "body w d s = Inr s"
    using assms
    by (auto simp: is_link_iff settled_def body_def readlink_def split: option.splits node.splits)
  then show ?thesis
    using False by simp
qed

lemma settled_scan:
  assumes "\<forall>n\<in>set names. settled w (fs s) n"
  shows "\<exists>s'. scan w names s = Inr s' \<and> fs s' = fs s \<and> fixed s' = fixed s
            \<and> links s' = links s + of_nat (length (filter (is_link w s) names))"
  using assms
proof (induction names arbitrary: s)
  case Nil
  then show ?case by simp
next
  case (Cons d rest)
  obtain s1 where s1: "body w d s = Inr s1" "fs s1 = fs s" "fixed s1 = fixed s"
    "links s1 = (if is_link w s d then links s + 1 else links s)"
    using settled_body [of w s d] Cons.prems by auto
  have "\<forall>n\<in>set rest. settled w (fs s1) n"
    using Cons.prems s1(2) by simp
  then obtain s' where s': "scan w rest s1 = Inr s'" "fs s' = fs s1" "fixed s' = fixed s1"
    "links s' = links s1 + of_nat (length (filter (is_link w s1) rest))"
    using Cons.IH [of s1] by auto
  have "is_link w s1 = is_link w s"
    using s1(2) by (auto simp: is_link_iff fun_eq_iff)
  then show ?case
    using s1 s' by simp
qed

lemma settled_kept:
  assumes "settled w (fs s) n"
  shows "settled w (fs (final (body w d s))) n"
proof (cases "readlink_fault w n")
  case (Some e)
  then show ?thesis using assms by (simp add: settled_def)
next
  case None
  show ?thesis
  proof (cases "fs s n")
    case none: None
    then show ?thesis using assms None by (simp add: settled_def)
  next
    case (Some v)
    show ?thesis
    proof (cases v)
      case (Symlink t)
      then have "relative t"
        using assms None Some by (simp add: settled_def)
      then have "fs (final (body w d s)) n = Some (Symlink t)"
        using Some Symlink by (intro body_keeps_relative) simp_all
      then show ?thesis
        using None \<open>relative t\<close> by (simp add: settled_def)
    next
      case Regular
      have "fs (final (body w d s)) n = Some Regular"
      proof (cases "n = d")
        case True
        then have "body w d s = Inr s"
          using None Some Regular by (simp add: body_def readlink_def)
        then show ?thesis using Some Regular by (simp add: final_def)
      next
        case False
        then show ?thesis using Some Regular by (simp add: fs_body_other)
      qed
      then show ?thesis using None by (simp add: settled_def)
    next
      case Directory
      have "fs (final (body w d s)) n = Some Directory"
      proof (cases "n = d")
        case True
        then have "body w d s = Inr s"
          using None Some Directory by (simp add: body_def readlink_def)
        then show ?thesis using Some Directory by (simp add: final_def)
      next
        case False
        then show ?thesis using Some Directory by (simp add: fs_body_other)
      qed
      then show ?thesis using None by (simp add: settled_def)
    qed
  qed
qed

text \<open>What a completed iteration leaves: its entry settled, the links still links, and
  no target empty if none was.\<close>

lemma body_settles:
  assumes "body w d s = Inr s'" and "\<forall>n t. fs s n = Some (Symlink t) \<longrightarrow> t \<noteq> []"
  shows "settled w (fs s') d"
    and "\<forall>n. is_link w s' n = is_link w s n"
    and "\<forall>n t. fs s' n = Some (Symlink t) \<longrightarrow> t \<noteq> []"
proof -
  have other: "fs s' n = fs s n" if "n \<noteq> d" for n
    using fs_body_other [OF that, of w s] assms(1) by (simp add: final_def)
  show "settled w (fs s') d"
  proof (cases "readlink w (fs s) d (target s) (TARGET_SIZE - 1)")
    case (Inl e)
    then have e: "e = EINVAL" "s' = s"
      using assms(1) by (auto simp: body_def split: if_splits)
    then show ?thesis
      using Inl by (auto simp: settled_def readlink_def Let_def split: option.splits node.splits)
  next
    case (Inr r)
    obtain index buf where r: "r = (index, buf)"
      by (cases r)
    from Inr r obtain t where t: "readlink_fault w d = None" "fs s d = Some (Symlink t)"
      by (auto simp: readlink_Inr)
    then obtain c cs where c: "t = c # cs"
      using assms(2) by (cases t) auto
    have b: "buf ! 0 = c"
      using readlink_first_byte [of w "fs s" d "target s" "TARGET_SIZE - 1" index buf c cs]
        Inr r t c by (simp add: TARGET_SIZE_def)
    show ?thesis
    proof (cases "c = CHR ''/''")
      case True
      then obtain x where "fs s' d = Some (Symlink (''../..'' @ x))"
        using assms(1) Inr r b
        by (auto simp: body_def Let_def unlink_def symlink_def
            split: sum.splits option.splits node.splits)
      then show ?thesis
        using t(1) by (simp add: settled_def relative_def)
    next
      case False
      then have "s' = s\<lparr>target := buf, links := links s + 1\<rparr>"
        using assms(1) Inr r b by (simp add: body_def Let_def)
      then show ?thesis
        using t c False by (simp add: settled_def relative_def)
    qed
  qed
  have shape: "(\<exists>t. fs s' d = Some (Symlink t) \<and> t \<noteq> []) \<or> fs s' d = fs s d"
    using assms(1)
    by (auto simp: body_def Let_def unlink_def symlink_def
        split: sum.splits option.splits node.splits if_splits prod.splits)
  have kind: "(\<exists>t. fs s' d = Some (Symlink t)) \<longleftrightarrow> (\<exists>t. fs s d = Some (Symlink t))"
    using assms(1)
    by (auto simp: body_def Let_def unlink_def symlink_def readlink_Inr
        split: sum.splits option.splits node.splits if_splits prod.splits)
  show "\<forall>n. is_link w s' n = is_link w s n"
    using other kind by (metis is_link_iff)
  show "\<forall>n t. fs s' n = Some (Symlink t) \<longrightarrow> t \<noteq> []"
    using other shape assms(2) by (metis option.inject node.inject)
qed

lemma scan_settles:
  assumes "scan w names s = Inr s'" and "\<forall>n t. fs s n = Some (Symlink t) \<longrightarrow> t \<noteq> []"
  shows "(\<forall>n\<in>set names. settled w (fs s') n)
       \<and> (\<forall>n. settled w (fs s) n \<longrightarrow> settled w (fs s') n)
       \<and> (\<forall>n. is_link w s' n = is_link w s n)
       \<and> links s' = links s + of_nat (length (filter (is_link w s) names))"
  using assms
proof (induction names arbitrary: s)
  case Nil
  then show ?case by simp
next
  case (Cons d rest)
  from Cons.prems(1) obtain s1 where s1: "body w d s = Inr s1" "scan w rest s1 = Inr s'"
    by (auto split: sum.splits)
  note b = body_settles [OF s1(1) Cons.prems(2)]
  have k: "settled w (fs s1) n" if "settled w (fs s) n" for n
    using settled_kept [OF that, of d] s1(1) by (simp add: final_def)
  have l: "links s1 = (if is_link w s d then links s + 1 else links s)"
    using body_links [of w d s] s1(1) by (simp add: final_def)
  have ih: "(\<forall>n\<in>set rest. settled w (fs s') n)
       \<and> (\<forall>n. settled w (fs s1) n \<longrightarrow> settled w (fs s') n)
       \<and> (\<forall>n. is_link w s' n = is_link w s1 n)
       \<and> links s' = links s1 + of_nat (length (filter (is_link w s1) rest))"
    using s1(2) b(3) by (rule Cons.IH)
  have "is_link w s1 = is_link w s"
    using b(2) by (simp add: fun_eq_iff)
  then show ?case
    using ih b(1,2) k l by simp
qed

lemma syscalls_files_update:
  "readlink (w\<lparr>files := f, opendir := l\<rparr>) = readlink w"
  "unlink (w\<lparr>files := f, opendir := l\<rparr>) = unlink w"
  "symlink (w\<lparr>files := f, opendir := l\<rparr>) = symlink w"
  "err_text (w\<lparr>files := f, opendir := l\<rparr>) = err_text w"
  by (simp_all add: fun_eq_iff readlink_def unlink_def symlink_def err_text_def)

lemma body_files_update: "body (w\<lparr>files := f, opendir := l\<rparr>) d s = body w d s"
  unfolding body_def syscalls_files_update ..

lemma scan_files_update: "scan (w\<lparr>files := f, opendir := l\<rparr>) names s = scan w names s"
  by (induction names arbitrary: s) (simp_all add: body_files_update split: sum.splits)

subsection \<open>Running the program on given directories\<close>

lemma body_skip:
  "readlink w (fs s) d (target s) (TARGET_SIZE - 1) = Inl EINVAL \<Longrightarrow> body w d s = Inr s"
  by (simp add: body_def)

lemma body_fault:
  "readlink_fault w d = Some e \<Longrightarrow>
   body w d s =
     (if e = EINVAL then Inr s
      else Inl (err_text w (''error in readlink('' @ [CHR 0x27] @ d @ [CHR 0x27] @ '')'') e, s))"
  by (simp add: body_def readlink_def)

lemma body_missing:
  "readlink_fault w d = None \<Longrightarrow> fs s d = None \<Longrightarrow>
   body w d s =
     Inl (err_text w (''error in readlink('' @ [CHR 0x27] @ d @ [CHR 0x27] @ '')'') ENOENT, s)"
  by (simp add: body_def readlink_def)

lemma readlink_not_link:
  "readlink_fault w p = None \<Longrightarrow> d p = Some Regular \<or> d p = Some Directory \<Longrightarrow>
   readlink w d p buf k = Inl EINVAL"
  by (auto simp: readlink_def)

lemmas body_absolute_run = body_absolute [OF _ _ _ _ _ refl refl refl]

lemmas run_simps =
  init_simps body_skip body_fault body_missing readlink_not_link
  body_absolute_run body_relative absolute_def relative_def NUL_def TARGET_SIZE_def

lemmas report_simps = report_def show_int_def show_nat.simps digit_def

lemma opendir_sample: "opendir sample = Some [''.'', ''..'', ''a'', ''b'', ''c'']"
  by (simp add: sample_def)

lemma main_sample:
  "fst (main sample) = Exit 0 (''fixed 1/2 symbolic links'' @ [backslash, CHR ''n'']) []"
  "snd (main sample) ''a'' = Some (Symlink ''../../opt/x/y'')"
  "snd (main sample) ''b'' = Some (Symlink ''../c'')"
proof -
  have "\<exists>s. scan sample [''.'', ''..'', ''a'', ''b'', ''c''] (init sample) = Inr s
          \<and> links s = 2 \<and> fixed s = 1
          \<and> fs s ''a'' = Some (Symlink ''../../opt/x/y'') \<and> fs s ''b'' = Some (Symlink ''../c'')"
    by (simp add: sample_def run_simps)
  then obtain s where s: "scan sample [''.'', ''..'', ''a'', ''b'', ''c''] (init sample) = Inr s"
    "links s = 2" "fixed s = 1"
    "fs s ''a'' = Some (Symlink ''../../opt/x/y'')" "fs s ''b'' = Some (Symlink ''../c'')"
    by blast
  show "fst (main sample) = Exit 0 (''fixed 1/2 symbolic links'' @ [backslash, CHR ''n'']) []"
    "snd (main sample) ''a'' = Some (Symlink ''../../opt/x/y'')"
    "snd (main sample) ''b'' = Some (Symlink ''../c'')"
    using s(2-) by (simp_all add: main_Inr [OF opendir_sample s(1)] report_simps)
qed

lemma opendir_sample_long: "opendir sample_long = Some [''.'', ''..'', ''a'']"
  by (simp add: sample_long_def)

lemma main_sample_long:
  "fst (main sample_long) = Exit 0 (''fixed 1/1 symbolic links'' @ [backslash, CHR ''n'']) []"
  "snd (main sample_long) ''a'' = Some (Symlink (''../../'' @ replicate 1022 (CHR ''a'')))"
proof -
  have "\<exists>s. scan sample_long [''.'', ''..'', ''a''] (init sample_long) = Inr s
          \<and> links s = 1 \<and> fixed s = 1
          \<and> fs s ''a'' = Some (Symlink (''../../'' @ replicate 1022 (CHR ''a'')))"
    by (simp add: sample_long_def sample_def run_simps)
  then obtain s where s: "scan sample_long [''.'', ''..'', ''a''] (init sample_long) = Inr s"
    "links s = 1" "fixed s = 1"
    "fs s ''a'' = Some (Symlink (''../../'' @ replicate 1022 (CHR ''a'')))"
    by blast
  show "fst (main sample_long) = Exit 0 (''fixed 1/1 symbolic links'' @ [backslash, CHR ''n'']) []"
    "snd (main sample_long) ''a'' = Some (Symlink (''../../'' @ replicate 1022 (CHR ''a'')))"
    using s(2-) by (simp_all add: main_Inr [OF opendir_sample_long s(1)] report_simps)
qed

lemma opendir_sample_unreadable:
  "opendir sample_unreadable = Some ([''.'', ''..'', ''a''] @ ''b'' # [''c''])"
  by (simp add: sample_unreadable_def sample_def)

lemma scan_sample_unreadable:
  "\<exists>s. scan sample_unreadable [''.'', ''..'', ''a''] (init sample_unreadable) = Inr s
      \<and> fs s ''a'' = Some (Symlink ''../../opt/x/y'')
      \<and> readlink sample_unreadable (fs s) ''b'' (target s) (TARGET_SIZE - 1) = Inl EACCES"
  by (simp add: sample_unreadable_def sample_def run_simps readlink_def)

lemma main_sample_unreadable:
  "fst (main sample_unreadable) =
     Exit EX_OSERR []
       (''fixlinks: error in readlink('' @ [CHR 0x27] @ ''b'' @ [CHR 0x27]
          @ ''): Permission denied'' @ [newline])"
  "snd (main sample_unreadable) ''a'' = Some (Symlink ''../../opt/x/y'')"
proof -
  have "\<exists>s. scan sample_unreadable ([''.'', ''..'', ''a''] @ ''b'' # [''c'']) (init sample_unreadable) =
          Inl (''fixlinks: error in readlink('' @ [CHR 0x27] @ ''b'' @ [CHR 0x27]
                 @ ''): Permission denied'' @ [newline], s)
        \<and> fs s ''a'' = Some (Symlink ''../../opt/x/y'')"
    by (simp add: sample_unreadable_def sample_def run_simps err_text_def)
  then obtain s where
    s: "scan sample_unreadable ([''.'', ''..'', ''a''] @ ''b'' # [''c'']) (init sample_unreadable) =
          Inl (''fixlinks: error in readlink('' @ [CHR 0x27] @ ''b'' @ [CHR 0x27]
                 @ ''): Permission denied'' @ [newline], s)"
       "fs s ''a'' = Some (Symlink ''../../opt/x/y'')"
    by blast
  show "fst (main sample_unreadable) =
     Exit EX_OSERR []
       (''fixlinks: error in readlink('' @ [CHR 0x27] @ ''b'' @ [CHR 0x27]
          @ ''): Permission denied'' @ [newline])"
    "snd (main sample_unreadable) ''a'' = Some (Symlink ''../../opt/x/y'')"
    using s(2) by (simp_all add: main_Inl [OF opendir_sample_unreadable s(1)])
qed

lemma opendir_sample_locked: "opendir sample_locked = Some [''.'', ''..'', ''libc.so'']"
  by (simp add: sample_locked_def)

lemma main_sample_locked:
  "fst (main sample_locked) =
     Exit EX_OSERR [] (''fixlinks: Failed to remove old link: Permission denied'' @ [newline])"
proof -
  have "\<exists>s. scan sample_locked [''.'', ''..'', ''libc.so''] (init sample_locked) =
          Inl (''fixlinks: Failed to remove old link: Permission denied'' @ [newline], s)"
    by (simp add: sample_locked_def sample_def run_simps err_text_def)
  then obtain s where
    s: "scan sample_locked [''.'', ''..'', ''libc.so''] (init sample_locked) =
          Inl (''fixlinks: Failed to remove old link: Permission denied'' @ [newline], s)"
    by blast
  show ?thesis
    by (simp add: main_Inl [OF opendir_sample_locked s])
qed


lemma opendir_sample_null_getwd: "opendir sample_null_getwd = Some [''.'', ''..'', ''c'']"
  by (simp add: sample_null_getwd_def sample_nolinks_def)

lemma main_sample_null_getwd:
  "fst (main sample_null_getwd) =
     Exit EX_USAGE [] (''fixlinks: no symbolic links in (null)'' @ [newline])"
proof -
  have "\<exists>s. scan sample_null_getwd [''.'', ''..'', ''c''] (init sample_null_getwd) = Inr s
          \<and> links s = 0"
    by (simp add: sample_null_getwd_def sample_nolinks_def sample_def run_simps)
  then obtain s where
    s: "scan sample_null_getwd [''.'', ''..'', ''c''] (init sample_null_getwd) = Inr s" "links s = 0"
    by blast
  have "getwd sample_null_getwd = None" and "progname sample_null_getwd = ''fixlinks''"
    by (simp_all add: sample_null_getwd_def sample_nolinks_def sample_def)
  then show ?thesis
    using s(2) by (simp add: main_Inr [OF opendir_sample_null_getwd s(1)] errx_text_def str_or_null_def)
qed

lemma opendir_sample_long_abort:
  "opendir sample_long_abort = Some ([''.'', ''..'', ''a''] @ ''b'' # [])"
  by (simp add: sample_long_abort_def)

lemma main_sample_long_abort:
  "fst (main sample_long_abort) =
     Exit EX_OSERR []
       (''fixlinks: error in readlink('' @ [CHR 0x27] @ ''b'' @ [CHR 0x27]
          @ ''): Permission denied'' @ [newline])"
  "snd (main sample_long_abort) ''a'' = Some (Symlink (''../../'' @ replicate 1022 (CHR ''a'')))"
proof -
  have "\<exists>s. scan sample_long_abort ([''.'', ''..'', ''a''] @ ''b'' # []) (init sample_long_abort) =
          Inl (''fixlinks: error in readlink('' @ [CHR 0x27] @ ''b'' @ [CHR 0x27]
                 @ ''): Permission denied'' @ [newline], s)
        \<and> fs s ''a'' = Some (Symlink (''../../'' @ replicate 1022 (CHR ''a'')))"
    by (simp add: sample_long_abort_def sample_def run_simps err_text_def)
  then obtain s where
    s: "scan sample_long_abort ([''.'', ''..'', ''a''] @ ''b'' # []) (init sample_long_abort) =
          Inl (''fixlinks: error in readlink('' @ [CHR 0x27] @ ''b'' @ [CHR 0x27]
                 @ ''): Permission denied'' @ [newline], s)"
       "fs s ''a'' = Some (Symlink (''../../'' @ replicate 1022 (CHR ''a'')))"
    by blast
  show "fst (main sample_long_abort) =
     Exit EX_OSERR []
       (''fixlinks: error in readlink('' @ [CHR 0x27] @ ''b'' @ [CHR 0x27]
          @ ''): Permission denied'' @ [newline])"
    "snd (main sample_long_abort) ''a'' = Some (Symlink (''../../'' @ replicate 1022 (CHR ''a'')))"
    using s(2) by (simp_all add: main_Inl [OF opendir_sample_long_abort s(1)])
qed

section \<open>Properties of the disassembly front end\<close>

lemma byte_loop_four:
  "byte_loop inst 0 dis =
     dis @ ''0x'' @ take 2 inst @ '' '' @ ''0x'' @ take 2 (drop 2 inst) @ '' ''
         @ ''0x'' @ take 2 (drop 4 inst) @ '' '' @ ''0x'' @ take 2 (drop 6 inst) @ '' ''"
proof -
  have "byte_loop inst 8 x = x" for x
    by (simp add: byte_loop.simps)
  moreover have "byte_loop inst 6 x = byte_loop inst 8 (x @ ''0x'' @ take 2 (drop 6 inst) @ '' '')" for x
    by (subst byte_loop.simps) simp
  moreover have "byte_loop inst 4 x = byte_loop inst 6 (x @ ''0x'' @ take 2 (drop 4 inst) @ '' '')" for x
    by (subst byte_loop.simps) simp
  moreover have "byte_loop inst 2 x = byte_loop inst 4 (x @ ''0x'' @ take 2 (drop 2 inst) @ '' '')" for x
    by (subst byte_loop.simps) simp
  moreover have "byte_loop inst 0 x = byte_loop inst 2 (x @ ''0x'' @ take 2 inst @ '' '')" for x
    by (subst byte_loop.simps) (simp add: numeral_2_eq_2)
  ultimately show ?thesis by simp
qed

lemma take_two:
  assumes "2 \<le> length a"
  shows "take 2 a = [x, y] \<longleftrightarrow> a ! 0 = x \<and> a ! 1 = y"
proof -
  obtain b c rest where "a = b # c # rest"
    using assms by (cases a; cases "tl a") auto
  then show ?thesis by auto
qed

lemma one_arg_tokens: "one_arg inst dis = dis @ spec_tokens inst"
proof (cases "length inst = 10")
  case True
  then have "take 2 inst = ''0x'' \<longleftrightarrow> inst ! 0 = CHR ''0'' \<and> inst ! 1 = CHR ''x''"
    by (intro take_two) simp
  then show ?thesis
    using True by (auto simp: one_arg_def spec_tokens_def byte_pairs_def byte_loop_four)
next
  case False
  then show ?thesis
    by (simp add: one_arg_def spec_tokens_def byte_pairs_def byte_loop_four)
qed

lemma arg_loop_tokens: "arg_loop argv i dis = dis @ concat (map spec_tokens (drop i argv))"
proof (induction argv i dis rule: arg_loop.induct)
  case (1 argv i dis)
  show ?case
  proof (cases "i < length argv")
    case True
    then have "drop i argv = argv ! i # drop (i + 1) argv"
      by (simp add: Cons_nth_drop_Suc)
    then show ?thesis
      using True "1" by (subst arg_loop.simps) (simp add: one_arg_tokens)
  next
    case False
    then show ?thesis
      by (subst arg_loop.simps) simp
  qed
qed

section \<open>The claims\<close>

text \<open>
  C1. An entry that is a symbolic link with an absolute target is replaced, by a run that
  is not aborted, with a link of the same name whose target is \<^verbatim>\<open>../..\<close> followed by
  the bytes that \<^verbatim>\<open>readlink\<close> stored: the whole original target when it is shorter than
  the 1024-byte array, and its first 1023 bytes otherwise. Nothing else is done to the
  target: no normalisation, no collapsing of \<^verbatim>\<open>..\<close>.
\<close>

theorem rewrite_absolute_target:
  assumes "opendir w = Some names" and "n \<in> set names"
    and "files w n = Some (Symlink t)" and "absolute t" and "NUL \<notin> set t"
    and "readlink_fault w n = None"
    and "fst (main w) = Exit st out line" and "st \<noteq> EX_OSERR"
  shows "snd (main w) n = Some (Symlink (''../..'' @ take (TARGET_SIZE - 1) t))
       \<and> (length t < TARGET_SIZE \<longrightarrow> snd (main w) n = Some (Symlink (''../..'' @ t)))"
proof -
  from assms(1,7,8) obtain s where s: "scan w names (init w) = Inr s" "snd (main w) = fs s"
    by (auto simp: main_def EX_OSERR_def EX_USAGE_def split: sum.splits if_splits)
  have "fs s n = Some (Symlink (''../..'' @ take (TARGET_SIZE - 1) t))"
    using assms(2) _ assms(4,6) _ assms(5) s(1)
    by (rule scan_rewrites) (simp_all add: init_simps assms(3))
  then show ?thesis
    using s(2) by (simp add: TARGET_SIZE_def)
qed

theorem rewrite_absolute_target_witness:
  "files sample ''a'' = Some (Symlink ''/opt/x/y'')
   \<and> snd (main sample) ''a'' = Some (Symlink ''../../opt/x/y'')"
  using rewrite_absolute_target [of sample "[''.'', ''..'', ''a'', ''b'', ''c'']" "''a''" "''/opt/x/y''",
      OF _ _ _ _ _ _ main_sample(1)]
  by (simp add: sample_def absolute_def NUL_def EX_OSERR_def TARGET_SIZE_def)

text \<open>The claim as it is written fails on a target of 1024 bytes: the new target ends
  one byte early.\<close>

theorem rewrite_truncates_counterexample:
  "files sample_long ''a'' = Some (Symlink (CHR ''/'' # replicate 1023 (CHR ''a'')))
   \<and> fst (main sample_long) = Exit 0 (''fixed 1/1 symbolic links'' @ [backslash, CHR ''n'']) []
   \<and> snd (main sample_long) ''a'' = Some (Symlink (''../../'' @ replicate 1022 (CHR ''a'')))
   \<and> snd (main sample_long) ''a'' \<noteq> Some (Symlink (''../..'' @ CHR ''/'' # replicate 1023 (CHR ''a'')))"
  by (simp add: main_sample_long) (simp add: sample_long_def sample_def)

text \<open>
  C2. At every point of the scan, after any number of entries and however the loop
  stops, the counters read \<open>0 \<le> fixed \<le> links \<le>\<close> the number of entries gone through,
  which is at most the number of entries: this for a directory of fewer than \<open>2 ^ 31\<close>
  entries, beyond which an \<^verbatim>\<open>int\<close> cannot count them. An iteration adds one to \<open>links\<close>
  exactly when \<^verbatim>\<open>readlink\<close> succeeds on its entry, and one to \<open>fixed\<close> exactly when it
  goes on with the entry replaced, which happens only to an entry read as a link.
\<close>

theorem counters_invariant:
  assumes "opendir w = Some (pre @ post)" and "length (pre @ post) < 2 ^ 31"
    and "s = final (scan w pre (init w))"
  shows "0 \<le> sint (fixed s) \<and> sint (fixed s) \<le> sint (links s)
       \<and> sint (links s) \<le> int (length pre) \<and> length pre \<le> length (pre @ post)
       \<and> links (final (body w d s)) = (if is_link w s d then links s + 1 else links s)
       \<and> fixed (final (body w d s)) = (if replaced w s d then fixed s + 1 else fixed s)
       \<and> (replaced w s d \<longrightarrow> is_link w s d)"
proof -
  have "int (length pre) < 2 ^ 31"
    using assms(2) by simp
  then have "0 \<le> sint (fixed s) \<and> sint (fixed s) \<le> sint (links s)
      \<and> sint (links s) \<le> sint (links (init w)) + int (length pre)"
    using assms(3) by (intro scan_counters) (simp_all add: init_simps)
  then show ?thesis
    using replaced_is_link [of w s d] by (simp add: init_simps body_links body_fixed)
qed

theorem counters_invariant_witness:
  "sint (fixed (final (scan sample [''.'', ''..'', ''a'', ''b''] (init sample)))) = 1
   \<and> sint (links (final (scan sample [''.'', ''..'', ''a'', ''b''] (init sample)))) = 2
   \<and> sint (links (final (scan sample [''.'', ''..'', ''a'', ''b''] (init sample)))) \<le> 4
   \<and> \<not> is_link sample (final (scan sample [''.'', ''..'', ''a'', ''b''] (init sample))) ''c''
   \<and> links (final (body sample ''c'' (final (scan sample [''.'', ''..'', ''a'', ''b''] (init sample))))) = 2"
proof -
  let ?s = "final (scan sample [''.'', ''..'', ''a'', ''b''] (init sample))"
  have o: "opendir sample = Some ([''.'', ''..'', ''a'', ''b''] @ [''c''])"
    by (simp add: sample_def)
  have l: "length ([''.'', ''..'', ''a'', ''b''] @ [''c'']) < 2 ^ 31"
    by simp
  have v: "fixed ?s = 1" "links ?s = 2" "\<not> is_link sample ?s ''c''"
    by (simp_all add: sample_def run_simps final_def is_link_def)
  show ?thesis
    using counters_invariant [OF o l refl, of "''c''"] v by simp
qed

text \<open>
  C3. With the loop at the entry \<open>d\<close>, in the state \<open>s\<close>: when \<^verbatim>\<open>readlink\<close> fails with
  \<open>EINVAL\<close> the iteration changes nothing and the loop goes on; any other failure of
  \<^verbatim>\<open>readlink\<close>, and any failure of \<^verbatim>\<open>unlink\<close> or \<^verbatim>\<open>symlink\<close>, ends the run at once with
  the operating-system status and an empty standard output, whatever entries come
  after \<open>d\<close>, leaving the directory as it was at that moment. The line on standard error
  names the operation; it holds the entry's name for \<^verbatim>\<open>readlink\<close> only: the lines for
  \<^verbatim>\<open>unlink\<close> and \<^verbatim>\<open>symlink\<close> are fixed texts followed by the error text.
\<close>

theorem fatal_errors:
  assumes "opendir w = Some (pre @ d # post)" and "scan w pre (init w) = Inr s"
    and "r = readlink w (fs s) d (target s) (TARGET_SIZE - 1)"
  shows "(r = Inl EINVAL \<longrightarrow> body w d s = Inr s)
       \<and> (r = Inl e \<and> e \<noteq> EINVAL \<longrightarrow>
            main w =
              (Exit EX_OSERR []
                 (err_text w (''error in readlink('' @ [CHR 0x27] @ d @ [CHR 0x27] @ '')'') e),
               fs s)
            \<and> sublist ''readlink'' (stderr (fst (main w)))
            \<and> sublist d (stderr (fst (main w))))
       \<and> (r = Inr (index, buf) \<and> buf ! 0 = CHR ''/'' \<and> unlink w (fs s) d = Inl e \<longrightarrow>
            main w = (Exit EX_OSERR [] (err_text w ''Failed to remove old link'' e), fs s))
       \<and> (r = Inr (index, buf) \<and> buf ! 0 = CHR ''/'' \<and> unlink w (fs s) d = Inr d1
            \<and> symlink w d1 (''../..'' @ cstring (buf[index := NUL])) d = Inl e \<longrightarrow>
            main w = (Exit EX_OSERR [] (err_text w ''Failed to create link'' e), d1))
       \<and> EX_OSERR \<noteq> 0"
proof -
  have sc: "scan w (pre @ d # post) (init w) =
      (case body w d s of Inl a \<Rightarrow> Inl a | Inr s' \<Rightarrow> scan w post s')"
    using assms(2) by (simp add: scan_append)
  have m: "main w = (Exit EX_OSERR [] line, fs s')" if "body w d s = Inl (line, s')" for line s'
    using assms(1) sc that by (simp add: main_Inl)
  have a: "body w d s = Inr s" if "r = Inl EINVAL"
    using that assms(3) by (simp add: body_def)
  have b: "main w =
        (Exit EX_OSERR []
           (err_text w (''error in readlink('' @ [CHR 0x27] @ d @ [CHR 0x27] @ '')'') e), fs s)
      \<and> sublist ''readlink'' (stderr (fst (main w)))
      \<and> sublist d (stderr (fst (main w)))"
    if "r = Inl e" "e \<noteq> EINVAL"
  proof -
    let ?line = "err_text w (''error in readlink('' @ [CHR 0x27] @ d @ [CHR 0x27] @ '')'') e"
    have "body w d s = Inl (?line, s)"
      using that assms(3) by (simp add: body_def)
    then have 1: "main w = (Exit EX_OSERR [] ?line, fs s)"
      by (rule m)
    have "?line = (progname w @ '': error in '') @ ''readlink''
                    @ (''('' @ [CHR 0x27] @ d @ [CHR 0x27] @ ''): '' @ strerror e @ [newline])"
      by (simp add: err_text_def)
    then have 2: "sublist ''readlink'' ?line"
      by (metis sublist_appendI)
    have "?line = (progname w @ '': error in readlink('' @ [CHR 0x27]) @ d
                    @ ([CHR 0x27] @ ''): '' @ strerror e @ [newline])"
      by (simp add: err_text_def)
    then have 3: "sublist d ?line"
      by (metis sublist_appendI)
    show ?thesis
      using 1 2 3 by simp
  qed
  have c: "main w = (Exit EX_OSERR [] (err_text w ''Failed to remove old link'' e), fs s)"
    if "r = Inr (index, buf)" "buf ! 0 = CHR ''/''" "unlink w (fs s) d = Inl e"
  proof -
    have "body w d s =
        Inl (err_text w ''Failed to remove old link'' e,
             s\<lparr>target := buf[index := NUL], links := links s + 1\<rparr>)"
      using that assms(3) by (simp add: body_def Let_def)
    then show ?thesis
      using m by fastforce
  qed
  have d: "main w = (Exit EX_OSERR [] (err_text w ''Failed to create link'' e), d1)"
    if "r = Inr (index, buf)" "buf ! 0 = CHR ''/''" "unlink w (fs s) d = Inr d1"
      "symlink w d1 (''../..'' @ cstring (buf[index := NUL])) d = Inl e"
  proof -
    have "body w d s =
        Inl (err_text w ''Failed to create link'' e,
             s\<lparr>target := buf[index := NUL], links := links s + 1, fs := d1\<rparr>)"
      using that assms(3) by (simp add: body_def Let_def)
    then show ?thesis
      using m by fastforce
  qed
  have "EX_OSERR \<noteq> 0"
    by (simp add: EX_OSERR_def)
  then show ?thesis
    using a b c d by blast
qed

theorem fatal_errors_witness:
  "fst (main sample_unreadable) =
     Exit EX_OSERR []
       (''fixlinks: error in readlink('' @ [CHR 0x27] @ ''b'' @ [CHR 0x27]
          @ ''): Permission denied'' @ [newline])
   \<and> sublist ''b'' (stderr (fst (main sample_unreadable)))"
proof -
  obtain s where s: "scan sample_unreadable [''.'', ''..'', ''a''] (init sample_unreadable) = Inr s"
    and r: "readlink sample_unreadable (fs s) ''b'' (target s) (TARGET_SIZE - 1) = Inl EACCES"
    using scan_sample_unreadable by blast
  have p: "progname sample_unreadable = ''fixlinks''"
    by (simp add: sample_unreadable_def sample_def)
  have ne: "EACCES \<noteq> EINVAL"
    by simp
  have "main sample_unreadable =
      (Exit EX_OSERR []
        (err_text sample_unreadable (''error in readlink('' @ [CHR 0x27] @ ''b'' @ [CHR 0x27] @ '')'') EACCES),
       fs s)"
    and b: "sublist ''b'' (stderr (fst (main sample_unreadable)))"
    using fatal_errors [OF opendir_sample_unreadable s r [symmetric], of EACCES] ne by blast+
  then have "fst (main sample_unreadable) =
     Exit EX_OSERR []
       (''fixlinks: error in readlink('' @ [CHR 0x27] @ ''b'' @ [CHR 0x27]
          @ ''): Permission denied'' @ [newline])"
    by (simp add: err_text_def p)
  then show ?thesis
    using b by blast
qed

text \<open>The claim as it is written fails where \<^verbatim>\<open>unlink\<close> is refused: the line on standard
  error does not hold the name of the entry.\<close>

theorem unlink_error_counterexample:
  "unlink sample_locked (files sample_locked) ''libc.so'' = Inl EACCES
   \<and> fst (main sample_locked) =
       Exit EX_OSERR [] (''fixlinks: Failed to remove old link: Permission denied'' @ [newline])
   \<and> \<not> sublist ''libc.so'' (stderr (fst (main sample_locked)))"
proof -
  have "unlink sample_locked (files sample_locked) ''libc.so'' = Inl EACCES"
    by (simp add: unlink_def sample_locked_def sample_def)
  moreover have "\<not> sublist ''libc.so''
      (''fixlinks: Failed to remove old link: Permission denied'' @ [newline])"
    by (simp add: sublist_code(3) newline_def)
  ultimately show ?thesis
    by (simp add: main_sample_locked)
qed

text \<open>
  C4. A run whose loop ends with \<open>links\<close> at zero exits with the usage status, which is
  not the operating-system status, and writes nothing to standard output. The line on
  standard error ends in what \<^verbatim>\<open>%s\<close> prints of the result of \<^verbatim>\<open>getwd(NULL)\<close>, which the
  source hands on untested. On the directory without links, with a \<^verbatim>\<open>getwd\<close> that
  returns a null pointer, the line names no directory: it holds no slash, where the
  claim has the absolute path of the working directory.
\<close>

theorem usage_error_without_path:
  "fst (main sample_null_getwd) =
     Exit EX_USAGE [] (''fixlinks: no symbolic links in (null)'' @ [newline])
   \<and> EX_USAGE \<noteq> EX_OSERR
   \<and> \<not> sublist ''/'' (stderr (fst (main sample_null_getwd)))"
proof -
  have "\<not> sublist ''/'' (''fixlinks: no symbolic links in (null)'' @ [newline])"
    by (simp add: sublist_code(3) newline_def)
  then show ?thesis
    by (simp add: main_sample_null_getwd EX_USAGE_def EX_OSERR_def)
qed

text \<open>
  C5. On the scenario of the specification the run succeeds and writes the summary, but
  the summary ends in a backslash and the letter n where the claim has a line
  terminator: the format string of \<^verbatim>\<open>printf\<close> is written with \<^verbatim>\<open>\\n\<close>.
\<close>

theorem summary_without_line_terminator:
  "fst (main sample) = Exit 0 (''fixed 1/2 symbolic links'' @ [backslash, CHR ''n'']) []
   \<and> stdout (fst (main sample)) \<noteq> ''fixed 1/2 symbolic links'' @ [newline]"
  by (simp add: main_sample(1) newline_def backslash_def)

text \<open>
  C6. A symbolic link whose target begins with a byte other than the slash keeps its
  target through a whole run, however the run ends. When the loop of a run reaches the
  link, after the entries \<open>pre\<close> listed before it, and \<^verbatim>\<open>readlink\<close> is not refused on it,
  the loop goes on past it with \<open>links\<close> one higher and with \<open>fixed\<close> and the directory as
  they were: the link is counted, and neither removed nor created again. The same holds
  of the iteration on the link in any state in which the link is in the directory.
\<close>

theorem relative_link_untouched:
  assumes "files w n = Some (Symlink t)" and "relative t"
  shows "snd (main w) n = Some (Symlink t)
       \<and> (opendir w = Some (pre @ n # post) \<longrightarrow> scan w pre (init w) = Inr r \<longrightarrow>
            readlink_fault w n = None \<longrightarrow>
            scan w (pre @ [n]) (init w) =
              Inr (r\<lparr>target := take (min (length t) (TARGET_SIZE - 1)) t
                                 @ drop (min (length t) (TARGET_SIZE - 1)) (target r),
                    links := links r + 1\<rparr>))
       \<and> (fs s n = Some (Symlink t) \<longrightarrow> readlink_fault w n = None \<longrightarrow>
            body w n s =
              Inr (s\<lparr>target := take (min (length t) (TARGET_SIZE - 1)) t
                                 @ drop (min (length t) (TARGET_SIZE - 1)) (target s),
                    links := links s + 1\<rparr>))"
proof -
  have whole: "snd (main w) n = Some (Symlink t)"
  proof (cases "opendir w")
    case None
    then show ?thesis using assms(1) by (simp add: snd_main)
  next
    case (Some names)
    have "fs (final (scan w names (init w))) n = Some (Symlink t)"
      by (rule scan_keeps_relative) (simp_all add: init_simps assms)
    then show ?thesis using Some by (simp add: snd_main)
  qed
  have step: "body w n x =
      Inr (x\<lparr>target := take (min (length t) (TARGET_SIZE - 1)) t
                         @ drop (min (length t) (TARGET_SIZE - 1)) (target x),
            links := links x + 1\<rparr>)"
    if "fs x n = Some (Symlink t)" "readlink_fault w n = None" for x
    by (rule body_relative [OF that(1) assms(2) that(2)])
  have run: "scan w (pre @ [n]) (init w) =
      Inr (r\<lparr>target := take (min (length t) (TARGET_SIZE - 1)) t
                         @ drop (min (length t) (TARGET_SIZE - 1)) (target r),
            links := links r + 1\<rparr>)"
    if "scan w pre (init w) = Inr r" "readlink_fault w n = None"
  proof -
    have "fs (final (scan w pre (init w))) n = Some (Symlink t)"
      by (rule scan_keeps_relative) (simp_all add: init_simps assms)
    then have "fs r n = Some (Symlink t)"
      using that(1) by (simp add: final_def)
    then show ?thesis
      using step [of r] that by (simp add: scan_append)
  qed
  show ?thesis
    using whole step [of s] run by blast
qed

theorem relative_link_untouched_witness:
  "files sample ''b'' = Some (Symlink ''../c'')
   \<and> snd (main sample) ''b'' = Some (Symlink ''../c'')
   \<and> links (final (scan sample [''.'', ''..'', ''a''] (init sample))) = 1
   \<and> links (final (scan sample ([''.'', ''..'', ''a''] @ [''b'']) (init sample))) = 2
   \<and> fixed (final (scan sample ([''.'', ''..'', ''a''] @ [''b'']) (init sample))) = 1
   \<and> fs (final (scan sample ([''.'', ''..'', ''a''] @ [''b'']) (init sample))) =
       fs (final (scan sample [''.'', ''..'', ''a''] (init sample)))"
proof -
  have f: "files sample ''b'' = Some (Symlink ''../c'')"
    and r: "relative ''../c''"
    and q: "readlink_fault sample ''b'' = None"
    and o: "opendir sample = Some ([''.'', ''..'', ''a''] @ ''b'' # [''c''])"
    by (simp_all add: sample_def relative_def)
  have "\<exists>s. scan sample [''.'', ''..'', ''a''] (init sample) = Inr s \<and> links s = 1 \<and> fixed s = 1"
    by (simp add: sample_def run_simps)
  then obtain s where s: "scan sample [''.'', ''..'', ''a''] (init sample) = Inr s"
    "links s = 1" "fixed s = 1"
    by blast
  have m: "snd (main sample) ''b'' = Some (Symlink ''../c'')"
    and v: "scan sample ([''.'', ''..'', ''a''] @ [''b'']) (init sample) =
        Inr (s\<lparr>target := take (min (length ''../c'') (TARGET_SIZE - 1)) ''../c''
                           @ drop (min (length ''../c'') (TARGET_SIZE - 1)) (target s),
              links := links s + 1\<rparr>)"
    using relative_link_untouched [OF f r, of "[''.'', ''..'', ''a'']" "[''c'']" s] o s(1) q
    by blast+
  show ?thesis
    unfolding v s(1) using f m s(2,3) by (simp add: final_def)
qed

text \<open>
  C7. After a run that completed with its summary, on a directory none of whose links
  has an empty target, a second run over the directory as the first left it, listing
  the same entries in any order, completes with \<open>fixed\<close> at zero and \<open>links\<close> as before,
  and leaves the directory as it found it.
\<close>

theorem second_run_fixes_nothing:
  assumes "opendir w = Some names" and "scan w names (init w) = Inr s" and "links s \<noteq> 0"
    and "\<forall>n t. files w n = Some (Symlink t) \<longrightarrow> t \<noteq> []"
    and "mset again = mset names"
  shows "main w = (Exit 0 (report (fixed s) (links s)) [], fs s)
       \<and> main (w\<lparr>files := fs s, opendir := Some again\<rparr>) = (Exit 0 (report 0 (links s)) [], fs s)"
proof -
  let ?w = "w\<lparr>files := fs s, opendir := Some again\<rparr>"
  have first: "main w = (Exit 0 (report (fixed s) (links s)) [], fs s)"
    using assms(1,2,3) by (simp add: main_Inr)
  have st: "(\<forall>n\<in>set names. settled w (fs s) n)
       \<and> (\<forall>n. is_link w s n = is_link w (init w) n)
       \<and> links s = links (init w) + of_nat (length (filter (is_link w (init w)) names))"
    using scan_settles [OF assms(2)] assms(4) by (simp add: init_simps)
  have "set again = set names"
    using assms(5) by (rule mset_eq_setD)
  then have "\<forall>n\<in>set again. settled w (fs (init ?w)) n"
    using st by (simp add: init_simps)
  then obtain s2 where s2: "scan ?w again (init ?w) = Inr s2" "fs s2 = fs (init ?w)"
    "fixed s2 = fixed (init ?w)"
    "links s2 = links (init ?w) + of_nat (length (filter (is_link w (init ?w)) again))"
    using settled_scan [of again w "init ?w"] by (auto simp: scan_files_update)
  have "is_link w (init ?w) = is_link w (init w)"
    using st by (simp add: fun_eq_iff is_link_iff init_simps)
  moreover have "length (filter P again) = length (filter P names)" for P :: "string \<Rightarrow> bool"
    using assms(5) by (metis mset_filter size_mset)
  ultimately have "links s2 = links s"
    using s2(4) st by (simp add: init_simps)
  then have "main ?w = (Exit 0 (report 0 (links s)) [], fs s)"
    using s2 assms(3) main_Inr [of ?w again s2] by (simp add: init_simps)
  then show ?thesis
    using first by simp
qed

theorem second_run_fixes_nothing_witness:
  "fst (main sample) = Exit 0 (''fixed 1/2 symbolic links'' @ [backslash, CHR ''n'']) []
   \<and> fst (main (sample\<lparr>files := snd (main sample), opendir := Some [''c'', ''b'', ''a'', ''..'', ''.'']\<rparr>)) =
       Exit 0 (''fixed 0/2 symbolic links'' @ [backslash, CHR ''n'']) []"
proof -
  have "\<exists>s. scan sample [''.'', ''..'', ''a'', ''b'', ''c''] (init sample) = Inr s
          \<and> links s = 2 \<and> fixed s = 1"
    by (simp add: sample_def run_simps)
  then obtain s where s: "scan sample [''.'', ''..'', ''a'', ''b'', ''c''] (init sample) = Inr s"
    "links s = 2" "fixed s = 1"
    by blast
  have l: "links s \<noteq> 0"
    by (simp add: s(2))
  have e: "\<forall>n t. files sample n = Some (Symlink t) \<longrightarrow> t \<noteq> []"
    by (simp add: sample_def)
  have p: "mset [''c'', ''b'', ''a'', ''..'', ''.''] = mset [''.'', ''..'', ''a'', ''b'', ''c'']"
    by simp
  have "main sample = (Exit 0 (report (fixed s) (links s)) [], fs s)"
    and "main (sample\<lparr>files := fs s, opendir := Some [''c'', ''b'', ''a'', ''..'', ''.'']\<rparr>) =
         (Exit 0 (report 0 (links s)) [], fs s)"
    using second_run_fixes_nothing [OF opendir_sample s(1) l e p] by blast+
  then show ?thesis
    by (simp add: s(2,3) report_simps)
qed

text \<open>
  C8. With the pipe open, what the program writes to it is, argument after argument
  from \<open>argv[1]\<close> on, what the contract says: for an argument of 8 characters, or of 10
  beginning with \<^verbatim>\<open>0x\<close> (which is dropped), the four byte pairs in order, each as \<^verbatim>\<open>0x\<close>,
  the pair and a space; for any other argument, nothing.
\<close>

theorem cheridis_streams_tokens:
  "cheridis_main True argv = Some (concat (map spec_tokens (drop 1 argv)))"
  by (simp add: cheridis_main_def arg_loop_tokens)

theorem cheridis_streams_tokens_witness:
  "cheridis_main True [''cheridis'', ''0x12345678'', ''zz'', ''deadbeef'', ''0y12345678''] =
     Some ''0x12 0x34 0x56 0x78 0xde 0xad 0xbe 0xef ''"
  using cheridis_streams_tokens [of "[''cheridis'', ''0x12345678'', ''zz'', ''deadbeef'', ''0y12345678'']"]
  by (simp add: spec_tokens_def byte_pairs_def)

text \<open>
  C9. The result of \<^verbatim>\<open>opendir\<close> is never tested. On a null stream the run reaches
  \<^verbatim>\<open>readdir\<close> with it and ends in none of the three documented ways, the directory
  untouched; a run ends in one of the three exactly when \<^verbatim>\<open>opendir\<close> returned a stream.
\<close>

theorem null_directory_stream:
  "(opendir w = None \<longrightarrow> main w = (ReaddirNull, files w))
   \<and> (contract (fst (main w)) \<longleftrightarrow> opendir w \<noteq> None)"
  by (auto simp: main_def contract_def split: option.splits sum.splits)

theorem null_directory_stream_witness:
  "opendir sample_closed = None
   \<and> main sample_closed = (ReaddirNull, files sample_closed)
   \<and> \<not> contract (fst (main sample_closed))"
proof -
  have o: "opendir sample_closed = None"
    by (simp add: sample_closed_def)
  have m: "main sample_closed = (ReaddirNull, files sample_closed)"
    using null_directory_stream [of sample_closed] o by blast
  have c: "\<not> contract (fst (main sample_closed))"
    using null_directory_stream [of sample_closed] o by blast
  show ?thesis
    using o m c by blast
qed

text \<open>
  C10. When the loop has gone through the entries \<open>pre\<close> and the run is then aborted by
  \<^verbatim>\<open>err\<close>, every absolute link among \<open>pre\<close> is left rewritten in the directory, with
  the target the rewrite gave it: \<^verbatim>\<open>../..\<close> followed by the first 1023 bytes of the
  original target, which is the whole of it when it is shorter than the array. Nothing
  is rolled back. Standard output is empty: no summary is reported.
\<close>

theorem abort_keeps_rewritten:
  assumes "opendir w = Some (pre @ rest)" and "scan w pre (init w) = Inr sm"
    and "fst (main w) = Exit EX_OSERR out line"
    and "n \<in> set pre" and "files w n = Some (Symlink t)" and "absolute t"
    and "NUL \<notin> set t" and "readlink_fault w n = None"
  shows "snd (main w) n = Some (Symlink (''../..'' @ take (TARGET_SIZE - 1) t))
       \<and> (length t < TARGET_SIZE \<longrightarrow> snd (main w) n = Some (Symlink (''../..'' @ t)))
       \<and> out = []"
proof -
  have "fs sm n = Some (Symlink (''../..'' @ take (TARGET_SIZE - 1) t))"
    using assms(4) _ assms(6,8) _ assms(7,2)
    by (rule scan_rewrites) (simp_all add: init_simps assms(5))
  then have "fs (final (scan w rest sm)) n = Some (Symlink (''../..'' @ take (TARGET_SIZE - 1) t))"
    by (rule scan_keeps_relative) (rule relative_rewritten)
  moreover have "scan w (pre @ rest) (init w) = scan w rest sm"
    using assms(2) by (simp add: scan_append)
  ultimately have "snd (main w) n = Some (Symlink (''../..'' @ take (TARGET_SIZE - 1) t))"
    using assms(1) by (simp add: snd_main)
  moreover have "out = []"
    using assms(1,3)
    by (auto simp: main_def EX_OSERR_def EX_USAGE_def split: sum.splits if_splits)
  ultimately show ?thesis by (simp add: TARGET_SIZE_def)
qed

theorem abort_keeps_rewritten_witness:
  "fst (main sample_unreadable) =
     Exit EX_OSERR []
       (''fixlinks: error in readlink('' @ [CHR 0x27] @ ''b'' @ [CHR 0x27]
          @ ''): Permission denied'' @ [newline])
   \<and> files sample_unreadable ''a'' = Some (Symlink ''/opt/x/y'')
   \<and> snd (main sample_unreadable) ''a'' = Some (Symlink ''../../opt/x/y'')"
proof -
  obtain s where s: "scan sample_unreadable [''.'', ''..'', ''a''] (init sample_unreadable) = Inr s"
    using scan_sample_unreadable by blast
  have f: "files sample_unreadable ''a'' = Some (Symlink ''/opt/x/y'')"
    and q: "readlink_fault sample_unreadable ''a'' = None"
    and a: "absolute ''/opt/x/y''" and z: "NUL \<notin> set ''/opt/x/y''"
    and m: "''a'' \<in> set [''.'', ''..'', ''a'']"
    by (simp_all add: sample_unreadable_def sample_def absolute_def NUL_def)
  have "snd (main sample_unreadable) ''a'' = Some (Symlink (''../..'' @ take (TARGET_SIZE - 1) ''/opt/x/y''))"
    using abort_keeps_rewritten [OF opendir_sample_unreadable s main_sample_unreadable(1) m f a z q]
    by blast
  then show ?thesis
    using f main_sample_unreadable(1) by (simp add: TARGET_SIZE_def)
qed

text \<open>The claim as it is written fails when the link rewritten before the abort has a
  target of 1024 bytes: what is left is not \<^verbatim>\<open>../..\<close> followed by the original target.\<close>

theorem abort_keeps_truncated_counterexample:
  "fst (main sample_long_abort) =
     Exit EX_OSERR []
       (''fixlinks: error in readlink('' @ [CHR 0x27] @ ''b'' @ [CHR 0x27]
          @ ''): Permission denied'' @ [newline])
   \<and> files sample_long_abort ''a'' = Some (Symlink (CHR ''/'' # replicate 1023 (CHR ''a'')))
   \<and> snd (main sample_long_abort) ''a'' = Some (Symlink (''../../'' @ replicate 1022 (CHR ''a'')))
   \<and> snd (main sample_long_abort) ''a'' \<noteq>
       Some (Symlink (''../..'' @ CHR ''/'' # replicate 1023 (CHR ''a'')))"
  by (simp add: main_sample_long_abort) (simp add: sample_long_abort_def sample_def)

end
